theory Spec2Isabelle
  imports Main
begin

section \<open>The idle-session monitor of the price tracker front-end\<close>

text \<open>
  The hook \<^verbatim>\<open>useSessionTimeout\<close> (hooks/useSessionTimeout.js) is embedded over an
  explicit model of the browser facilities it calls: \<^verbatim>\<open>localStorage\<close>, the
  listeners of \<^verbatim>\<open>window\<close>, the interval timers, \<^verbatim>\<open>alert\<close> and the router's
  \<^verbatim>\<open>navigate\<close>. Every call of one of these facilities is appended to a log, in
  the order the code makes it, so that the order of the calls and the absence of a
  call are both statements about the log.

  Numbers: \<^verbatim>\<open>Date.now()\<close> and the result of \<^verbatim>\<open>parseInt\<close> are integers or
  \<^verbatim>\<open>NaN\<close>; they are modelled as \<open>int\<close> and \<open>int option\<close> (\<open>None\<close> is
  \<^verbatim>\<open>NaN\<close>), which agrees with the doubles of JavaScript below \<open>2^53\<close>. The
  parameter \<^verbatim>\<open>timeoutMinutes\<close> is taken to be a whole number of minutes.
  Strings are lists of code units below 256.
\<close>

subsection \<open>Calls to the browser\<close>

datatype call =
    GetItem string
  | SetItem string string
  | RemoveItem string
  | AddEventListener string nat
  | RemoveEventListener string nat
  | SetInterval nat
  | ClearInterval nat
  | Alert string
  | Navigate string

text \<open>
  A listener is identified by the function object registered; the only function this
  code registers is a closure \<^verbatim>\<open>updateLastActivity\<close>, one per run of the effect, so
  a listener is the pair of the event type and the number of the closure. An interval
  timer is its handle, the \<^verbatim>\<open>timeoutMs\<close> its callback has captured, and its period
  in milliseconds.
\<close>

record world =
  storage :: "string \<rightharpoonup> string"
  listeners :: "(string \<times> nat) list"
  intervals :: "(nat \<times> int \<times> nat) list"
  next_function :: nat
  next_handle :: nat
  calls :: "call list"

definition boot :: "(string \<rightharpoonup> string) \<Rightarrow> world" where
  "boot s = \<lparr>storage = s, listeners = [], intervals = [],
             next_function = 1, next_handle = 1, calls = []\<rparr>"

definition getItem :: "string \<Rightarrow> world \<Rightarrow> string option \<times> world" where
  "getItem k w = (storage w k, w\<lparr>calls := calls w @ [GetItem k]\<rparr>)"

definition setItem :: "string \<Rightarrow> string \<Rightarrow> world \<Rightarrow> world" where
  "setItem k v w = w\<lparr>storage := (storage w)(k \<mapsto> v), calls := calls w @ [SetItem k v]\<rparr>"

definition removeItem :: "string \<Rightarrow> world \<Rightarrow> world" where
  "removeItem k w = w\<lparr>storage := (storage w)(k := None), calls := calls w @ [RemoveItem k]\<rparr>"

definition alert :: "string \<Rightarrow> world \<Rightarrow> world" where
  "alert msg w = w\<lparr>calls := calls w @ [Alert msg]\<rparr>"

definition navigate :: "string \<Rightarrow> world \<Rightarrow> world" where
  "navigate path w = w\<lparr>calls := calls w @ [Navigate path]\<rparr>"

text \<open>Registering the same function twice for one event type keeps one listener.\<close>

definition addEventListener :: "string \<Rightarrow> nat \<Rightarrow> world \<Rightarrow> world" where
  "addEventListener ty f w =
     w\<lparr>listeners := (if (ty, f) \<in> set (listeners w) then listeners w
                      else listeners w @ [(ty, f)]),
       calls := calls w @ [AddEventListener ty f]\<rparr>"

definition removeEventListener :: "string \<Rightarrow> nat \<Rightarrow> world \<Rightarrow> world" where
  "removeEventListener ty f w =
     w\<lparr>listeners := removeAll (ty, f) (listeners w),
       calls := calls w @ [RemoveEventListener ty f]\<rparr>"

definition setInterval :: "int \<Rightarrow> nat \<Rightarrow> world \<Rightarrow> nat \<times> world" where
  "setInterval tms period w =
     (next_handle w,
      w\<lparr>intervals := intervals w @ [(next_handle w, tms, period)],
        next_handle := Suc (next_handle w),
        calls := calls w @ [SetInterval period]\<rparr>)"

definition clearInterval :: "nat \<Rightarrow> world \<Rightarrow> world" where
  "clearInterval h w =
     w\<lparr>intervals := filter (\<lambda>i. fst i \<noteq> h) (intervals w),
       calls := calls w @ [ClearInterval h]\<rparr>"

subsection \<open>Conversions of JavaScript\<close>

text \<open>\<^verbatim>\<open>ToString\<close> of what \<^verbatim>\<open>getItem\<close> returns: \<^verbatim>\<open>null\<close> becomes the text "null".\<close>

definition ToString :: "string option \<Rightarrow> string" where
  "ToString v = (case v of None \<Rightarrow> ''null'' | Some s \<Rightarrow> s)"

definition is_space :: "char \<Rightarrow> bool" where
  "is_space c = (of_char c \<in> set [9, 10, 11, 12, 13, 32, 160 :: nat])"

definition is_digit :: "char \<Rightarrow> bool" where
  "is_digit c = (48 \<le> (of_char c :: nat) \<and> (of_char c :: nat) \<le> 57)"

definition digit_val :: "char \<Rightarrow> int" where
  "digit_val c = int (of_char c) - 48"

text \<open>
  \<^verbatim>\<open>parseInt(s, 10)\<close>: leading white space is dropped, one sign is read, the longest
  run of decimal digits is the number, and what follows is ignored; with no digit the
  result is \<^verbatim>\<open>NaN\<close>.
\<close>

definition parseInt10 :: "string \<Rightarrow> int option" where
  "parseInt10 s =
     (let s1 = dropWhile is_space s;
          sign = (if s1 \<noteq> [] \<and> hd s1 = CHR ''-'' then - 1 else 1 :: int);
          s2 = (if s1 \<noteq> [] \<and> (hd s1 = CHR ''+'' \<or> hd s1 = CHR ''-'') then tl s1 else s1);
          z = takeWhile is_digit s2
      in if z = [] then None
         else Some (sign * foldl (\<lambda>a c. 10 * a + digit_val c) 0 z))"

text \<open>\<^verbatim>\<open>Number.prototype.toString\<close> on an integer: its decimal digits, after a minus sign
  when it is negative.\<close>

definition digit_char :: "nat \<Rightarrow> char" where
  "digit_char d = ''0123456789'' ! d"

fun digits :: "nat \<Rightarrow> string" where
  "digits n = (if n < 10 then [digit_char n]
               else digits (n div 10) @ [digit_char (n mod 10)])"

declare digits.simps [simp del]

definition toString :: "int \<Rightarrow> string" where
  "toString n = (if n < 0 then CHR ''-'' # digits (nat (- n)) else digits (nat n))"

text \<open>Truthiness: a string value is truthy unless it is \<^verbatim>\<open>null\<close> or empty, a number
  unless it is \<^verbatim>\<open>NaN\<close> or zero.\<close>

definition truthy_str :: "string option \<Rightarrow> bool" where
  "truthy_str v = (case v of None \<Rightarrow> False | Some s \<Rightarrow> s \<noteq> [])"

definition truthy_num :: "int option \<Rightarrow> bool" where
  "truthy_num v = (case v of None \<Rightarrow> False | Some n \<Rightarrow> n \<noteq> 0)"

subsection \<open>The hook\<close>

definition timeoutMs :: "int \<Rightarrow> int" where
  "timeoutMs timeoutMinutes = timeoutMinutes * 60 * 1000"

definition updateLastActivity :: "int \<Rightarrow> world \<Rightarrow> world" where
  "updateLastActivity now w = setItem ''lastActivity'' (toString now) w"

text \<open>The callback of the interval; \<open>now\<close> is what \<^verbatim>\<open>Date.now()\<close> returns in it.\<close>

definition session_check :: "int \<Rightarrow> int \<Rightarrow> world \<Rightarrow> world" where
  "session_check tms now w =
     (let (v, w1) = getItem ''lastActivity'' w;
          lastActivity = parseInt10 (ToString v);
          (userId, w2) = getItem ''user_id'' w1
      in if truthy_str userId \<and> truthy_num lastActivity then
           (case lastActivity of
              None \<Rightarrow> w2
            | Some la \<Rightarrow>
                if now - la > tms then
                  navigate ''/login''
                    (alert ''Session expired. Please log in again.''
                      (removeItem ''lastActivity'' (removeItem ''user_id'' w2)))
                else w2)
         else w2)"

text \<open>
  One run of the effect at time \<open>now\<close>. It returns what the clean-up closure has
  captured: the handle of the interval and the closure \<^verbatim>\<open>updateLastActivity\<close>.
\<close>

definition effect :: "int \<Rightarrow> int \<Rightarrow> world \<Rightarrow> (nat \<times> nat) \<times> world" where
  "effect tms now w =
     (let f = next_function w;
          w0 = w\<lparr>next_function := Suc f\<rparr>;
          w1 = addEventListener ''mousemove'' f w0;
          w2 = addEventListener ''keydown'' f w1;
          (interval, w3) = setInterval tms 30000 w2;
          w4 = updateLastActivity now w3
      in ((interval, f), w4))"

definition cleanup :: "nat \<times> nat \<Rightarrow> world \<Rightarrow> world" where
  "cleanup c w =
     (let (interval, f) = c;
          w1 = clearInterval interval w;
          w2 = removeEventListener ''mousemove'' f w1
      in removeEventListener ''keydown'' f w2)"

text \<open>The hook itself: \<^verbatim>\<open>timeoutMinutes\<close> defaults to 10 when it is not given.\<close>

definition useSessionTimeout :: "int option \<Rightarrow> int \<Rightarrow> world \<Rightarrow> (nat \<times> nat) \<times> world" where
  "useSessionTimeout timeoutMinutes now w =
     effect (timeoutMs (case timeoutMinutes of None \<Rightarrow> 10 | Some m \<Rightarrow> m)) now w"

subsection \<open>The event loop\<close>

text \<open>
  The browser runs one callback at a time, to completion. An input event runs the
  listeners registered for its type; a timer fires only while its handle is among the
  active intervals, and then runs the check with the threshold its callback captured.
\<close>

datatype event = MouseMove | KeyDown | TimerFired nat

definition fire_event :: "string \<Rightarrow> int \<Rightarrow> world \<Rightarrow> world" where
  "fire_event ty now w =
     foldl (\<lambda>w' l. if fst l = ty then updateLastActivity now w' else w') w (listeners w)"

definition fire_timer :: "nat \<Rightarrow> int \<Rightarrow> world \<Rightarrow> world" where
  "fire_timer h now w =
     (case find (\<lambda>i. fst i = h) (intervals w) of
        None \<Rightarrow> w
      | Some i \<Rightarrow> session_check (fst (snd i)) now w)"

fun step :: "world \<Rightarrow> int \<times> event \<Rightarrow> world" where
  "step w (t, MouseMove) = fire_event ''mousemove'' t w"
| "step w (t, KeyDown) = fire_event ''keydown'' t w"
| "step w (t, TimerFired h) = fire_timer h t w"

definition run :: "(int \<times> event) list \<Rightarrow> world \<Rightarrow> world" where
  "run evs w = foldl step w evs"

subsection \<open>Observations on pages and traces\<close>

text \<open>The calls by which an expiry shows: removals, the alert and the navigation.\<close>

fun is_expiry_call :: "call \<Rightarrow> bool" where
  "is_expiry_call (RemoveItem k) = True"
| "is_expiry_call (Alert msg) = True"
| "is_expiry_call (Navigate path) = True"
| "is_expiry_call c = False"

fun is_read :: "call \<Rightarrow> bool" where
  "is_read (GetItem k) = True"
| "is_read c = False"

text \<open>The calls that name the storage key \<open>k\<close>.\<close>

fun touches :: "string \<Rightarrow> call \<Rightarrow> bool" where
  "touches k (GetItem k') = (k' = k)"
| "touches k (SetItem k' v) = (k' = k)"
| "touches k (RemoveItem k') = (k' = k)"
| "touches k c = False"

text \<open>The time the check reads back from the storage.\<close>

definition stored_time :: "world \<Rightarrow> int option" where
  "stored_time w = parseInt10 (ToString (storage w ''lastActivity''))"

text \<open>The number of listeners registered for an event type.\<close>

definition registered :: "string \<Rightarrow> world \<Rightarrow> nat" where
  "registered ty w = length (filter (\<lambda>l. fst l = ty) (listeners w))"

text \<open>The page after the hook has been mounted at time \<open>t0\<close> on a freshly loaded page
  whose storage is \<open>s\<close>.\<close>

definition mounted :: "int option \<Rightarrow> int \<Rightarrow> (string \<rightharpoonup> string) \<Rightarrow> world" where
  "mounted tm t0 s = snd (useSessionTimeout tm t0 (boot s))"

text \<open>The worlds a run passes through, the first one included.\<close>

fun trajectory :: "world \<Rightarrow> (int \<times> event) list \<Rightarrow> world list" where
  "trajectory w [] = [w]"
| "trajectory w (ev # evs) = w # trajectory (step w ev) evs"

text \<open>Activity events, the times at which they occur in a trace, and traces whose
  consecutive times are less than \<open>T\<close> apart.\<close>

fun is_activity :: "event \<Rightarrow> bool" where
  "is_activity MouseMove = True"
| "is_activity KeyDown = True"
| "is_activity (TimerFired h) = False"

definition activity_times :: "(int \<times> event) list \<Rightarrow> int list" where
  "activity_times evs = map fst (filter (\<lambda>ev. is_activity (snd ev)) evs)"

fun spaced :: "int \<Rightarrow> int list \<Rightarrow> bool" where
  "spaced T (a # b # ts) = (b - a < T \<and> spaced T (b # ts))"
| "spaced T ts = True"

section \<open>Number conversions\<close>

lemma digit_char_props:
  assumes "d < 10"
  shows "is_digit (digit_char d) \<and> digit_val (digit_char d) = int d"
proof -
  from assms have "d \<in> {0, 1, 2, 3, 4, 5, 6, 7, 8, 9}" by auto
  then show ?thesis
    by (auto simp: digit_char_def is_digit_def digit_val_def)
qed

lemma digits_all: "\<forall>c \<in> set (digits n). is_digit c"
proof (induction n rule: digits.induct)
  case (1 n)
  show ?case
  proof (cases "n < 10")
    case True
    then show ?thesis by (subst digits.simps) (simp add: digit_char_props)
  next
    case False
    have "n mod 10 < 10" by simp
    then have "is_digit (digit_char (n mod 10))"
      using digit_char_props by blast
    with False 1 show ?thesis by (subst digits.simps) simp
  qed
qed

lemma digits_value: "foldl (\<lambda>a c. 10 * a + digit_val c) 0 (digits n) = int n"
proof (induction n rule: digits.induct)
  case (1 n)
  show ?case
  proof (cases "n < 10")
    case True
    then show ?thesis by (subst digits.simps) (simp add: digit_char_props)
  next
    case False
    have "n mod 10 < 10" by simp
    then have "digit_val (digit_char (n mod 10)) = int (n mod 10)"
      using digit_char_props by blast
    with False 1 show ?thesis by (subst digits.simps) (simp add: zmod_int zdiv_int)
  qed
qed

lemma digits_nonempty: "digits n \<noteq> []"
  by (subst digits.simps) simp

lemma is_digit_plain:
  "is_digit c \<Longrightarrow> \<not> is_space c \<and> c \<noteq> CHR ''-'' \<and> c \<noteq> CHR ''+''"
  by (auto simp: is_digit_def is_space_def)

lemma takeWhile_digits: "takeWhile is_digit (digits n) = digits n"
  using digits_all [of n] by (simp add: takeWhile_eq_all_conv)

lemma parseInt10_digits: "parseInt10 (digits n) = Some (int n)"
proof -
  obtain c cs where d: "digits n = c # cs"
    using digits_nonempty [of n] by (cases "digits n") auto
  have "is_digit c" using digits_all [of n] d by simp
  then have "\<not> is_space c" "c \<noteq> CHR ''-''" "c \<noteq> CHR ''+''"
    using is_digit_plain by blast+
  then show ?thesis
    using digits_value [of n] takeWhile_digits [of n] d
    by (simp add: parseInt10_def Let_def)
qed

lemma parseInt10_minus_digits: "parseInt10 (CHR ''-'' # digits n) = Some (- int n)"
proof -
  have "\<not> is_space CHR ''-''" by (simp add: is_space_def)
  then show ?thesis
    using digits_value [of n] digits_nonempty [of n]
    by (simp add: parseInt10_def Let_def takeWhile_digits)
qed

text \<open>Reading back what \<^verbatim>\<open>Date.now().toString()\<close> wrote gives the time written.\<close>

lemma parseInt10_toString: "parseInt10 (toString n) = Some n"
  by (simp add: toString_def parseInt10_digits parseInt10_minus_digits)

lemma parseInt10_null: "parseInt10 (ToString None) = None"
  by (simp add: ToString_def parseInt10_def is_space_def is_digit_def)

section \<open>The periodic check\<close>

text \<open>The check either expires the session or only reads the two entries.\<close>

lemma session_check_eq:
  "session_check tms now w =
     (if truthy_str (storage w ''user_id'') \<and>
         (case stored_time w of None \<Rightarrow> False | Some la \<Rightarrow> la \<noteq> 0 \<and> tms < now - la)
      then w\<lparr>storage := (storage w)(''user_id'' := None, ''lastActivity'' := None),
             calls := calls w @ [GetItem ''lastActivity'', GetItem ''user_id'',
               RemoveItem ''user_id'', RemoveItem ''lastActivity'',
               Alert ''Session expired. Please log in again.'', Navigate ''/login'']\<rparr>
      else w\<lparr>calls := calls w @ [GetItem ''lastActivity'', GetItem ''user_id'']\<rparr>)"
  by (auto simp: session_check_def getItem_def removeItem_def alert_def navigate_def
      truthy_num_def stored_time_def Let_def split: option.split)

text \<open>
  C1 (as amended). When \<^verbatim>\<open>user_id\<close> holds a non-empty string and the stored
  \<^verbatim>\<open>lastActivity\<close> parses to an integer other than zero, the check expires the
  session exactly when \<open>now - lastActivity\<close> is strictly greater than \<open>timeoutMs\<close>:
  it then removes \<^verbatim>\<open>user_id\<close> and \<^verbatim>\<open>lastActivity\<close>, alerts
  "Session expired. Please log in again." and navigates to \<^verbatim>\<open>/login\<close>, in this
  order; otherwise it only reads the two entries.
\<close>

theorem check_expires_when_idle:
  assumes "truthy_str (storage w ''user_id'')"
    and "stored_time w = Some la"
    and "la \<noteq> 0"
  shows "session_check tms now w =
     (if tms < now - la
      then w\<lparr>storage := (storage w)(''user_id'' := None, ''lastActivity'' := None),
             calls := calls w @ [GetItem ''lastActivity'', GetItem ''user_id'',
               RemoveItem ''user_id'', RemoveItem ''lastActivity'',
               Alert ''Session expired. Please log in again.'', Navigate ''/login'']\<rparr>
      else w\<lparr>calls := calls w @ [GetItem ''lastActivity'', GetItem ''user_id'']\<rparr>)"
  using assms by (simp add: session_check_eq)

text \<open>
  Scenario A of the specification: threshold 10 minutes, activity recorded at 1000 ms,
  marker present. A check 11 minutes later expires the session; a check exactly 10
  minutes later does not.
\<close>

theorem check_expires_when_idle_witness:
  "truthy_str (storage (boot [''user_id'' \<mapsto> ''42'', ''lastActivity'' \<mapsto> ''1000'']) ''user_id'')
   \<and> stored_time (boot [''user_id'' \<mapsto> ''42'', ''lastActivity'' \<mapsto> ''1000'']) = Some 1000
   \<and> (1000 :: int) \<noteq> 0
   \<and> storage (session_check (timeoutMs 10) 661000
        (boot [''user_id'' \<mapsto> ''42'', ''lastActivity'' \<mapsto> ''1000''])) ''user_id'' = None
   \<and> storage (session_check (timeoutMs 10) 661000
        (boot [''user_id'' \<mapsto> ''42'', ''lastActivity'' \<mapsto> ''1000''])) ''lastActivity'' = None
   \<and> calls (session_check (timeoutMs 10) 661000
        (boot [''user_id'' \<mapsto> ''42'', ''lastActivity'' \<mapsto> ''1000''])) =
       [GetItem ''lastActivity'', GetItem ''user_id'',
        RemoveItem ''user_id'', RemoveItem ''lastActivity'',
        Alert ''Session expired. Please log in again.'', Navigate ''/login'']
   \<and> storage (session_check (timeoutMs 10) 601000
        (boot [''user_id'' \<mapsto> ''42'', ''lastActivity'' \<mapsto> ''1000''])) ''user_id'' = Some ''42''
   \<and> calls (session_check (timeoutMs 10) 601000
        (boot [''user_id'' \<mapsto> ''42'', ''lastActivity'' \<mapsto> ''1000''])) =
       [GetItem ''lastActivity'', GetItem ''user_id'']"
proof -
  let ?w = "boot [''user_id'' \<mapsto> ''42'', ''lastActivity'' \<mapsto> ''1000'']"
  have h1: "truthy_str (storage ?w ''user_id'')"
    by (simp add: boot_def truthy_str_def)
  have h2: "stored_time ?w = Some 1000"
    by (simp add: boot_def stored_time_def ToString_def parseInt10_def is_space_def
        is_digit_def digit_val_def)
  have h3: "(1000 :: int) \<noteq> 0" by simp
  show ?thesis
    using h1 h2 check_expires_when_idle [OF h1 h2 h3, of "timeoutMs 10" 661000]
      check_expires_when_idle [OF h1 h2 h3, of "timeoutMs 10" 601000]
    by (simp add: timeoutMs_def boot_def)
qed

text \<open>
  The claim as first stated fails for a timestamp that parses to zero: the marker is
  present, \<^verbatim>\<open>lastActivity\<close> is "0", far more than ten minutes have passed, and the
  check removes nothing and neither notifies nor redirects.
\<close>

theorem check_zero_timestamp_counterexample:
  "storage (boot [''user_id'' \<mapsto> ''42'', ''lastActivity'' \<mapsto> ''0'']) ''user_id'' = Some ''42''
   \<and> stored_time (boot [''user_id'' \<mapsto> ''42'', ''lastActivity'' \<mapsto> ''0'']) = Some 0
   \<and> timeoutMs 10 < 1700000000000 - 0
   \<and> storage (session_check (timeoutMs 10) 1700000000000
        (boot [''user_id'' \<mapsto> ''42'', ''lastActivity'' \<mapsto> ''0''])) ''user_id'' = Some ''42''
   \<and> storage (session_check (timeoutMs 10) 1700000000000
        (boot [''user_id'' \<mapsto> ''42'', ''lastActivity'' \<mapsto> ''0''])) ''lastActivity'' = Some ''0''
   \<and> calls (session_check (timeoutMs 10) 1700000000000
        (boot [''user_id'' \<mapsto> ''42'', ''lastActivity'' \<mapsto> ''0''])) =
       [GetItem ''lastActivity'', GetItem ''user_id'']"
  by (simp add: session_check_def getItem_def truthy_str_def truthy_num_def boot_def
      stored_time_def ToString_def parseInt10_def is_space_def is_digit_def digit_val_def
      timeoutMs_def)



text \<open>
  C10. When the stored \<^verbatim>\<open>lastActivity\<close> parses to the integer 0, the check performs
  no expiry action, even with the marker present and \<open>now - 0\<close> above \<open>timeoutMs\<close>:
  the guard tests the truthiness of the parsed number, and 0 is falsy.
\<close>

theorem check_zero_inert:
  assumes "stored_time w = Some 0"
  shows "session_check tms now w =
           w\<lparr>calls := calls w @ [GetItem ''lastActivity'', GetItem ''user_id'']\<rparr>"
  using assms by (simp add: session_check_eq)

theorem check_zero_inert_witness:
  "stored_time (boot [''user_id'' \<mapsto> ''7'', ''lastActivity'' \<mapsto> ''0'']) = Some 0
   \<and> truthy_str (storage (boot [''user_id'' \<mapsto> ''7'', ''lastActivity'' \<mapsto> ''0'']) ''user_id'')
   \<and> timeoutMs 10 < 1700000000000 - 0
   \<and> session_check (timeoutMs 10) 1700000000000
        (boot [''user_id'' \<mapsto> ''7'', ''lastActivity'' \<mapsto> ''0'']) =
      (boot [''user_id'' \<mapsto> ''7'', ''lastActivity'' \<mapsto> ''0''])
        \<lparr>calls := [GetItem ''lastActivity'', GetItem ''user_id'']\<rparr>"
proof -
  let ?w = "boot [''user_id'' \<mapsto> ''7'', ''lastActivity'' \<mapsto> ''0'']"
  have h: "stored_time ?w = Some 0"
    by (simp add: boot_def stored_time_def ToString_def parseInt10_def is_space_def
        is_digit_def digit_val_def)
  have c: "calls ?w = []" by (simp add: boot_def)
  have u: "truthy_str (storage ?w ''user_id'')" by (simp add: boot_def truthy_str_def)
  show ?thesis
    using h c u check_zero_inert [OF h, of "timeoutMs 10" 1700000000000]
    by (simp add: timeoutMs_def)
qed

section \<open>The event loop and the life cycle of the hook\<close>

lemma updateLastActivity_eq:
  "updateLastActivity now w =
     w\<lparr>storage := (storage w)(''lastActivity'' \<mapsto> toString now),
       calls := calls w @ [SetItem ''lastActivity'' (toString now)]\<rparr>"
  by (simp add: updateLastActivity_def setItem_def)

lemma foldl_listeners:
  "foldl (\<lambda>w' l. if fst l = ty then updateLastActivity now w' else w') w ls =
     (if filter (\<lambda>l. fst l = ty) ls = [] then w
      else w\<lparr>storage := (storage w)(''lastActivity'' \<mapsto> toString now),
             calls := calls w @ replicate (length (filter (\<lambda>l. fst l = ty) ls))
                        (SetItem ''lastActivity'' (toString now))\<rparr>)"
proof (induction ls arbitrary: w)
  case Nil
  then show ?case by simp
next
  case (Cons l ls)
  show ?case
  proof (cases "fst l = ty")
    case True
    then show ?thesis
      by (simp add: Cons.IH updateLastActivity_eq replicate_app_Cons_same)
  next
    case False
    then show ?thesis by (simp add: Cons.IH)
  qed
qed

lemma fire_event_eq:
  "fire_event ty now w =
     (if registered ty w = 0 then w
      else w\<lparr>storage := (storage w)(''lastActivity'' \<mapsto> toString now),
             calls := calls w @ replicate (registered ty w)
                        (SetItem ''lastActivity'' (toString now))\<rparr>)"
  by (simp add: fire_event_def registered_def foldl_listeners)

lemma fire_timer_cases:
  "fire_timer h now w = w \<or> (\<exists>tms. fire_timer h now w = session_check tms now w)"
  by (auto simp: fire_timer_def split: option.split)

lemma session_check_frame:
  "listeners (session_check tms now w) = listeners w"
  "intervals (session_check tms now w) = intervals w"
  "next_function (session_check tms now w) = next_function w"
  "next_handle (session_check tms now w) = next_handle w"
  by (simp_all add: session_check_eq)

lemma step_frame:
  "listeners (step w ev) = listeners w \<and> intervals (step w ev) = intervals w"
proof (cases ev)
  case (Pair t e)
  show ?thesis
  proof (cases e)
    case MouseMove
    with Pair show ?thesis by (simp add: fire_event_eq)
  next
    case KeyDown
    with Pair show ?thesis by (simp add: fire_event_eq)
  next
    case (TimerFired h)
    with Pair show ?thesis
      using fire_timer_cases [of h t w] by (auto simp: session_check_frame)
  qed
qed

lemma run_Nil: "run [] w = w"
  by (simp add: run_def)

lemma run_Cons: "run (ev # evs) w = run evs (step w ev)"
  by (simp add: run_def)

lemma run_frame:
  "listeners (run evs w) = listeners w \<and> intervals (run evs w) = intervals w"
  by (induction evs arbitrary: w) (simp_all add: run_Nil run_Cons step_frame)

lemma effect_eq:
  "effect tms now w =
     ((next_handle w, next_function w),
      w\<lparr>storage := (storage w)(''lastActivity'' \<mapsto> toString now),
        listeners := (let ls = (if (''mousemove'', next_function w) \<in> set (listeners w)
                          then listeners w else listeners w @ [(''mousemove'', next_function w)])
                      in if (''keydown'', next_function w) \<in> set ls then ls
                         else ls @ [(''keydown'', next_function w)]),
        intervals := intervals w @ [(next_handle w, tms, 30000)],
        next_function := Suc (next_function w),
        next_handle := Suc (next_handle w),
        calls := calls w @ [AddEventListener ''mousemove'' (next_function w),
                  AddEventListener ''keydown'' (next_function w),
                  SetInterval 30000,
                  SetItem ''lastActivity'' (toString now)]\<rparr>)"
  by (simp add: effect_def addEventListener_def setInterval_def updateLastActivity_eq Let_def)

lemma mounted_eq:
  "mounted tm t0 s =
     \<lparr>storage = s(''lastActivity'' \<mapsto> toString t0),
      listeners = [(''mousemove'', 1), (''keydown'', 1)],
      intervals = [(1, timeoutMs (case tm of None \<Rightarrow> 10 | Some m \<Rightarrow> m), 30000)],
      next_function = 2, next_handle = 2,
      calls = [AddEventListener ''mousemove'' 1, AddEventListener ''keydown'' 1,
               SetInterval 30000, SetItem ''lastActivity'' (toString t0)]\<rparr>"
  by (simp add: mounted_def useSessionTimeout_def effect_eq boot_def Let_def)

lemma fst_mount: "fst (useSessionTimeout tm t0 (boot s)) = (1, 1)"
  by (simp add: useSessionTimeout_def effect_eq boot_def)

lemma cleanup_eq:
  "cleanup (h, f) w =
     w\<lparr>intervals := filter (\<lambda>i. fst i \<noteq> h) (intervals w),
       listeners := removeAll (''keydown'', f) (removeAll (''mousemove'', f) (listeners w)),
       calls := calls w @ [ClearInterval h, RemoveEventListener ''mousemove'' f,
                  RemoveEventListener ''keydown'' f]\<rparr>"
  by (simp add: cleanup_def clearInterval_def removeEventListener_def Let_def)

lemma step_idle:
  assumes "listeners w = []" and "intervals w = []"
  shows "step w ev = w"
proof (cases ev)
  case (Pair t e)
  then show ?thesis using assms
    by (cases e) (simp_all add: fire_event_def fire_timer_def)
qed

lemma run_idle:
  assumes "listeners w = []" and "intervals w = []"
  shows "run evs w = w"
  using assms by (induction evs) (simp_all add: run_Nil run_Cons step_idle)

section \<open>Sessions with regular activity\<close>

lemma step_activity:
  assumes "is_activity e"
    and "listeners w = [(''mousemove'', f), (''keydown'', f)]"
  shows "step w (t, e) =
           w\<lparr>storage := (storage w)(''lastActivity'' \<mapsto> toString t),
             calls := calls w @ [SetItem ''lastActivity'' (toString t)]\<rparr>"
  using assms by (cases e) (simp_all add: fire_event_eq registered_def)

lemma stored_time_toString:
  "storage w ''lastActivity'' = Some (toString a) \<Longrightarrow> stored_time w = Some a"
  by (simp add: stored_time_def ToString_def parseInt10_toString)

lemma step_timer_quiet:
  assumes "intervals w = [(h, T, p)]"
    and "storage w ''lastActivity'' = Some (toString a)"
    and "t - a \<le> T"
  shows "step w (t, TimerFired h') = w \<or>
         step w (t, TimerFired h') =
           w\<lparr>calls := calls w @ [GetItem ''lastActivity'', GetItem ''user_id'']\<rparr>"
  using assms stored_time_toString [of w a]
  by (auto simp: fire_timer_def session_check_eq)

lemma last_activity_times:
  assumes "evs \<noteq> []" and "is_activity (snd (last evs))"
  shows "activity_times evs \<noteq> [] \<and> hd (activity_times evs) \<in> set (map fst evs)"
proof -
  from assms have "last evs \<in> set (filter (\<lambda>ev. is_activity (snd ev)) evs)" by simp
  then have ne: "filter (\<lambda>ev. is_activity (snd ev)) evs \<noteq> []"
    by (metis empty_iff list.set(1))
  then have "hd (filter (\<lambda>ev. is_activity (snd ev)) evs) \<in> set evs"
    by (metis filter_is_subset hd_in_set subsetD)
  with ne show ?thesis by (simp add: activity_times_def hd_map)
qed

lemma quiet_run:
  assumes "listeners w = [(''mousemove'', f), (''keydown'', f)]"
    and "intervals w = [(h, T, p)]"
    and "storage w ''lastActivity'' = Some (toString a)"
    and "sorted (a # map fst evs)"
    and "spaced T (a # activity_times evs)"
    and "evs = [] \<or> is_activity (snd (last evs))"
  shows "storage (run evs w) ''user_id'' = storage w ''user_id'' \<and>
         filter is_expiry_call (calls (run evs w)) = filter is_expiry_call (calls w)"
  using assms
proof (induction evs arbitrary: w a)
  case Nil
  then show ?case by (simp add: run_Nil)
next
  case (Cons ev evs)
  obtain t e where ev: "ev = (t, e)" by (cases ev)
  have rest: "evs = [] \<or> is_activity (snd (last evs))"
    using Cons.prems(6) by (cases evs) auto
  show ?case
  proof (cases "is_activity e")
    case True
    let ?w' = "step w ev"
    have w': "?w' = w\<lparr>storage := (storage w)(''lastActivity'' \<mapsto> toString t),
             calls := calls w @ [SetItem ''lastActivity'' (toString t)]\<rparr>"
      using step_activity [OF True Cons.prems(1)] ev by simp
    have s: "sorted (t # map fst evs)" using Cons.prems(4) ev by simp
    have sp: "spaced T (t # activity_times evs)"
      using Cons.prems(5) True ev by (simp add: activity_times_def)
    have "storage (run evs ?w') ''user_id'' = storage ?w' ''user_id'' \<and>
         filter is_expiry_call (calls (run evs ?w')) = filter is_expiry_call (calls ?w')"
      by (rule Cons.IH [of ?w' t]) (use w' Cons.prems(1,2) s sp rest in simp_all)
    then show ?thesis by (simp add: run_Cons w')
  next
    case False
    then obtain h' where e: "e = TimerFired h'" by (cases e) auto
    from False Cons.prems(6) ev have ne: "evs \<noteq> []" by auto
    with rest have la: "is_activity (snd (last evs))" by simp
    have at: "activity_times (ev # evs) = activity_times evs"
      using False ev by (simp add: activity_times_def)
    obtain b bs where b: "activity_times evs = b # bs" and bin: "b \<in> set (map fst evs)"
      using last_activity_times [OF ne la] by (cases "activity_times evs") auto
    have "t \<le> b" using Cons.prems(4) ev bin by auto
    moreover have "b - a < T" using Cons.prems(5) at b by simp
    ultimately have le: "t - a \<le> T" by simp
    let ?w' = "step w ev"
    have w': "?w' = w \<or> ?w' = w\<lparr>calls := calls w @ [GetItem ''lastActivity'', GetItem ''user_id'']\<rparr>"
      using step_timer_quiet [OF Cons.prems(2,3) le] ev e by simp
    have s: "sorted (a # map fst evs)" using Cons.prems(4) ev by auto
    have sp: "spaced T (a # activity_times evs)" using Cons.prems(5) at by simp
    have "storage (run evs ?w') ''user_id'' = storage ?w' ''user_id'' \<and>
         filter is_expiry_call (calls (run evs ?w')) = filter is_expiry_call (calls ?w')"
      by (rule Cons.IH [of ?w' a]) (use w' Cons.prems(1,2,3) s sp rest in auto)
    then show ?thesis using w' by (auto simp: run_Cons)
  qed
qed


text \<open>
  C2. Take a monitor mounted on a page, after any earlier events, and a trace that
  begins and ends with an activity event (pointer move or key press), whose times do
  not decrease and whose consecutive activity events are less than \<open>timeoutMs\<close>
  apart; the timer may fire anywhere between them. Running the trace leaves
  \<^verbatim>\<open>user_id\<close> as it was and adds no removal, no alert and no navigation to the
  calls made: each event has rewritten \<^verbatim>\<open>lastActivity\<close> to its own time.
\<close>

theorem active_session_never_expires:
  assumes "evs \<noteq> []"
    and "is_activity (snd (hd evs))"
    and "is_activity (snd (last evs))"
    and "sorted (map fst evs)"
    and "spaced (timeoutMs (case tm of None \<Rightarrow> 10 | Some m \<Rightarrow> m)) (activity_times evs)"
  shows "storage (run evs (run pre (mounted tm t0 s))) ''user_id'' =
           storage (run pre (mounted tm t0 s)) ''user_id''
       \<and> filter is_expiry_call (calls (run evs (run pre (mounted tm t0 s)))) =
           filter is_expiry_call (calls (run pre (mounted tm t0 s)))"
proof -
  let ?T = "timeoutMs (case tm of None \<Rightarrow> 10 | Some m \<Rightarrow> m)"
  let ?w = "run pre (mounted tm t0 s)"
  obtain t e rest where evs: "evs = (t, e) # rest"
    using assms(1) by (cases evs) auto
  have act: "is_activity e" using assms(2) evs by simp
  have l: "listeners ?w = [(''mousemove'', 1), (''keydown'', 1)]"
    and i: "intervals ?w = [(1, ?T, 30000)]"
    by (simp_all add: run_frame mounted_eq)
  let ?w' = "step ?w (t, e)"
  have w': "?w' = ?w\<lparr>storage := (storage ?w)(''lastActivity'' \<mapsto> toString t),
             calls := calls ?w @ [SetItem ''lastActivity'' (toString t)]\<rparr>"
    by (rule step_activity [OF act l])
  have r: "rest = [] \<or> is_activity (snd (last rest))"
    using assms(3) evs by (cases rest) auto
  have s: "sorted (t # map fst rest)" using assms(4) evs by simp
  have sp: "spaced ?T (t # activity_times rest)"
    using assms(5) evs act by (simp add: activity_times_def)
  have "storage (run rest ?w') ''user_id'' = storage ?w' ''user_id'' \<and>
        filter is_expiry_call (calls (run rest ?w')) = filter is_expiry_call (calls ?w')"
    by (rule quiet_run [of ?w' 1 1 ?T 30000 t]) (use w' l i s sp r in simp_all)
  then show ?thesis by (simp add: evs run_Cons w')
qed

text \<open>Scenario B of the specification up to its check at 11 minutes: threshold 10
  minutes, mounted at the time 1000000 ms, a key press 9 minutes later, a check 11
  minutes later, and a pointer move after it.\<close>

theorem active_session_never_expires_witness:
  "[(1540000 :: int, KeyDown), (1660000, TimerFired 1), (1700000, MouseMove)] \<noteq> []
   \<and> is_activity (snd (hd [(1540000 :: int, KeyDown), (1660000, TimerFired 1), (1700000, MouseMove)]))
   \<and> is_activity (snd (last [(1540000 :: int, KeyDown), (1660000, TimerFired 1), (1700000, MouseMove)]))
   \<and> sorted (map fst [(1540000 :: int, KeyDown), (1660000, TimerFired 1), (1700000, MouseMove)])
   \<and> spaced (timeoutMs 10)
         (activity_times [(1540000, KeyDown), (1660000, TimerFired 1), (1700000, MouseMove)])
   \<and> storage (run [(1540000, KeyDown), (1660000, TimerFired 1), (1700000, MouseMove)]
         (run [] (mounted (Some 10) 1000000 [''user_id'' \<mapsto> ''42'']))) ''user_id'' = Some ''42''
   \<and> filter is_expiry_call
         (calls (run [(1540000, KeyDown), (1660000, TimerFired 1), (1700000, MouseMove)]
           (run [] (mounted (Some 10) 1000000 [''user_id'' \<mapsto> ''42''])))) = []"
proof -
  let ?evs = "[(1540000 :: int, KeyDown), (1660000, TimerFired 1), (1700000, MouseMove)]"
  have h1: "?evs \<noteq> []" by simp
  have h2: "is_activity (snd (hd ?evs))" by simp
  have h3: "is_activity (snd (last ?evs))" by simp
  have h4: "sorted (map fst ?evs)" by simp
  have h5: "spaced (timeoutMs (case Some 10 of None \<Rightarrow> 10 | Some m \<Rightarrow> m)) (activity_times ?evs)"
    by (simp add: activity_times_def timeoutMs_def)
  show ?thesis
    using h1 h2 h3 h4 h5
      active_session_never_expires [OF h1 h2 h3 h4 h5, of "[]" 1000000 "[''user_id'' \<mapsto> ''42'']"]
    by (simp add: run_Nil mounted_eq)
qed

text \<open>The same from the activation on, which has written the first timestamp: no
  check expires the session while the activation and the activity events after it
  are less than \<open>timeoutMs\<close> apart.\<close>

lemma active_since_activation:
  assumes "sorted (t0 # map fst evs)"
    and "spaced (timeoutMs (case tm of None \<Rightarrow> 10 | Some m \<Rightarrow> m)) (t0 # activity_times evs)"
    and "evs = [] \<or> is_activity (snd (last evs))"
  shows "storage (run evs (mounted tm t0 s)) ''user_id'' = s ''user_id''
       \<and> filter is_expiry_call (calls (run evs (mounted tm t0 s))) = []"
proof -
  let ?T = "timeoutMs (case tm of None \<Rightarrow> 10 | Some m \<Rightarrow> m)"
  have "storage (run evs (mounted tm t0 s)) ''user_id'' = storage (mounted tm t0 s) ''user_id''
      \<and> filter is_expiry_call (calls (run evs (mounted tm t0 s))) =
        filter is_expiry_call (calls (mounted tm t0 s))"
    by (rule quiet_run [of _ 1 1 ?T 30000 t0]) (use assms in \<open>simp_all add: mounted_eq\<close>)
  then show ?thesis by (simp add: mounted_eq)
qed

text \<open>Scenario B to its end: with no event after the key press at 9 minutes, the
  check at 19 minutes still finds the session alive (the elapsed time equals the
  threshold) and the one 30 seconds later expires it.\<close>

lemma scenario_B_expiry:
  "calls (run [(1540000, KeyDown), (1660000, TimerFired 1), (2140000, TimerFired 1),
               (2170000, TimerFired 1)]
          (mounted (Some 10) 1000000 [''user_id'' \<mapsto> ''42''])) =
     [AddEventListener ''mousemove'' 1, AddEventListener ''keydown'' 1, SetInterval 30000,
      SetItem ''lastActivity'' ''1000000'', SetItem ''lastActivity'' ''1540000'',
      GetItem ''lastActivity'', GetItem ''user_id'',
      GetItem ''lastActivity'', GetItem ''user_id'',
      GetItem ''lastActivity'', GetItem ''user_id'',
      RemoveItem ''user_id'', RemoveItem ''lastActivity'',
      Alert ''Session expired. Please log in again.'', Navigate ''/login'']"
  by (simp add: run_def mounted_eq fire_event_eq registered_def fire_timer_def
      session_check_eq stored_time_def ToString_def truthy_str_def timeoutMs_def
      toString_def digits.simps digit_char_def parseInt10_def is_space_def is_digit_def
      digit_val_def)

section \<open>The stored timestamp over time\<close>

lemma step_stored_time:
  "stored_time (step w (t, e)) = stored_time w
   \<or> stored_time (step w (t, e)) = Some t
   \<or> stored_time (step w (t, e)) = None"
proof (cases e)
  case MouseMove
  then show ?thesis
    by (simp add: fire_event_eq stored_time_def ToString_def parseInt10_toString)
next
  case KeyDown
  then show ?thesis
    by (simp add: fire_event_eq stored_time_def ToString_def parseInt10_toString)
next
  case (TimerFired h)
  have "stored_time (session_check T t w) = stored_time w
        \<or> stored_time (session_check T t w) = None" for T
    by (simp add: session_check_eq stored_time_def parseInt10_null)
  note c = this
  from fire_timer_cases [of h t w] show ?thesis
  proof
    assume "fire_timer h t w = w"
    then show ?thesis using TimerFired by simp
  next
    assume "\<exists>tms. fire_timer h t w = session_check tms t w"
    then obtain tms where "fire_timer h t w = session_check tms t w" ..
    then show ?thesis using TimerFired c [of tms] by auto
  qed
qed

lemma trajectory_times:
  assumes "v \<in> set (List.map_filter stored_time (trajectory w evs))"
  shows "stored_time w = Some v \<or> v \<in> set (map fst evs)"
  using assms
proof (induction evs arbitrary: w)
  case Nil
  then show ?case by (simp add: List.map_filter_simps split: option.splits)
next
  case (Cons ev evs)
  obtain t e where ev: "ev = (t, e)" by (cases ev)
  from Cons.prems have "stored_time w = Some v
      \<or> v \<in> set (List.map_filter stored_time (trajectory (step w ev) evs))"
    by (auto simp: List.map_filter_simps split: option.splits)
  then show ?case
  proof
    assume "stored_time w = Some v"
    then show ?thesis by simp
  next
    assume "v \<in> set (List.map_filter stored_time (trajectory (step w ev) evs))"
    then have "stored_time (step w ev) = Some v \<or> v \<in> set (map fst evs)"
      by (rule Cons.IH)
    then show ?thesis
      using step_stored_time [of w t e] ev by auto
  qed
qed

lemma trajectory_sorted:
  assumes "\<forall>v. stored_time w = Some v \<longrightarrow> v \<le> a"
    and "sorted (a # map fst evs)"
  shows "sorted (List.map_filter stored_time (trajectory w evs))"
  using assms
proof (induction evs arbitrary: w a)
  case Nil
  then show ?case by (simp add: List.map_filter_simps split: option.splits)
next
  case (Cons ev evs)
  obtain t e where ev: "ev = (t, e)" by (cases ev)
  let ?w' = "step w ev"
  have at: "a \<le> t" and s: "sorted (t # map fst evs)"
    using Cons.prems(2) ev by simp_all
  have b: "\<forall>v. stored_time ?w' = Some v \<longrightarrow> v \<le> t"
    using step_stored_time [of w t e] Cons.prems(1) at ev by auto
  have rest: "sorted (List.map_filter stored_time (trajectory ?w' evs))"
    by (rule Cons.IH [OF b s])
  show ?case
  proof (cases "stored_time w")
    case None
    then show ?thesis using rest by (simp add: List.map_filter_simps)
  next
    case (Some v)
    have "v \<le> u" if "u \<in> set (List.map_filter stored_time (trajectory ?w' evs))" for u
    proof -
      have va: "v \<le> a" using Cons.prems(1) Some by simp
      from trajectory_times [OF that]
      show ?thesis
      proof
        assume "stored_time ?w' = Some u"
        then have "u = v \<or> u = t"
          using step_stored_time [of w t e] Some ev by auto
        then show ?thesis using va at by auto
      next
        assume "u \<in> set (map fst evs)"
        then have "t \<le> u" using s by auto
        then show ?thesis using va at by simp
      qed
    qed
    then show ?thesis using rest Some by (simp add: List.map_filter_simps)
  qed
qed

text \<open>
  C7. Every write of the monitor stores the current time: the write on activation
  and the write of each activity event read back as the time at which they were made.
  Under a clock that does not decrease, and with a value found at activation that was
  not written after it, the timestamps read from the storage along any run of the
  mounted monitor never decrease, for as long as one is stored.
\<close>

theorem lastActivity_nondecreasing:
  assumes "sorted (t0 # map fst evs)"
    and "case stored_time (boot s) of None \<Rightarrow> True | Some v \<Rightarrow> v \<le> t0"
  shows "stored_time (mounted tm t0 s) = Some t0
       \<and> stored_time (updateLastActivity now w) = Some now
       \<and> sorted (List.map_filter stored_time (boot s # trajectory (mounted tm t0 s) evs))"
proof -
  have m: "stored_time (mounted tm t0 s) = Some t0"
    by (simp add: mounted_eq stored_time_def ToString_def parseInt10_toString)
  have u: "stored_time (updateLastActivity now w) = Some now"
    by (simp add: updateLastActivity_eq stored_time_def ToString_def parseInt10_toString)
  have "\<forall>v. stored_time (mounted tm t0 s) = Some v \<longrightarrow> v \<le> t0"
    using m by simp
  then have tr: "sorted (List.map_filter stored_time (trajectory (mounted tm t0 s) evs))"
    using assms(1) by (rule trajectory_sorted)
  have "sorted (List.map_filter stored_time (boot s # trajectory (mounted tm t0 s) evs))"
  proof (cases "stored_time (boot s)")
    case None
    then show ?thesis using tr by (simp add: List.map_filter_simps)
  next
    case (Some v)
    have "v \<le> u" if "u \<in> set (List.map_filter stored_time (trajectory (mounted tm t0 s) evs))" for u
    proof -
      have v0: "v \<le> t0" using assms(2) Some by simp
      from trajectory_times [OF that]
      show ?thesis
      proof
        assume "stored_time (mounted tm t0 s) = Some u"
        then show ?thesis using m v0 by simp
      next
        assume "u \<in> set (map fst evs)"
        then have "t0 \<le> u" using assms(1) by auto
        then show ?thesis using v0 by simp
      qed
    qed
    then show ?thesis using tr Some by (simp add: List.map_filter_simps)
  qed
  with m u show ?thesis by simp
qed


theorem lastActivity_nondecreasing_witness:
  "sorted ((1000 :: int) # map fst [(2000 :: int, MouseMove), (3000, TimerFired 1), (3000, KeyDown)])
   \<and> (case stored_time (boot [''user_id'' \<mapsto> ''42'', ''lastActivity'' \<mapsto> ''900'']) of
         None \<Rightarrow> True | Some v \<Rightarrow> v \<le> 1000)
   \<and> stored_time (boot [''user_id'' \<mapsto> ''42'', ''lastActivity'' \<mapsto> ''900'']) = Some 900
   \<and> sorted (List.map_filter stored_time
         (boot [''user_id'' \<mapsto> ''42'', ''lastActivity'' \<mapsto> ''900''] #
          trajectory (mounted None 1000 [''user_id'' \<mapsto> ''42'', ''lastActivity'' \<mapsto> ''900''])
            [(2000, MouseMove), (3000, TimerFired 1), (3000, KeyDown)]))"
proof -
  let ?s = "[''user_id'' \<mapsto> ''42'', ''lastActivity'' \<mapsto> ''900'']"
  let ?evs = "[(2000 :: int, MouseMove), (3000, TimerFired 1), (3000, KeyDown)]"
  have h0: "stored_time (boot ?s) = Some 900"
    by (simp add: boot_def stored_time_def ToString_def parseInt10_def is_space_def
        is_digit_def digit_val_def)
  have h1: "sorted ((1000 :: int) # map fst ?evs)" by simp
  have h2: "case stored_time (boot ?s) of None \<Rightarrow> True | Some v \<Rightarrow> v \<le> 1000"
    using h0 by simp
  have c: "sorted (List.map_filter stored_time (boot ?s # trajectory (mounted None 1000 ?s) ?evs))"
    using lastActivity_nondecreasing [OF h1 h2, of None] by blast
  show ?thesis by (intro conjI h0 h1 h2 c)
qed

section \<open>Pages without a session\<close>

lemma check_no_marker:
  assumes "\<not> truthy_str (storage w ''user_id'')"
  shows "session_check tms now w =
           w\<lparr>calls := calls w @ [GetItem ''lastActivity'', GetItem ''user_id'']\<rparr>"
  using assms by (simp add: session_check_eq)

lemma timer_no_marker:
  assumes "\<not> truthy_str (storage w ''user_id'')"
  shows "storage (fire_timer h t w) = storage w
       \<and> listeners (fire_timer h t w) = listeners w
       \<and> intervals (fire_timer h t w) = intervals w
       \<and> filter (\<lambda>c. \<not> is_read c) (calls (fire_timer h t w)) =
           filter (\<lambda>c. \<not> is_read c) (calls w)"
  using assms by (simp add: fire_timer_def check_no_marker split: option.split)

lemma timers_no_marker:
  assumes "\<not> truthy_str (storage w ''user_id'')"
  shows "storage (run (map (\<lambda>t. (t, TimerFired h)) ts) w) = storage w
       \<and> listeners (run (map (\<lambda>t. (t, TimerFired h)) ts) w) = listeners w
       \<and> intervals (run (map (\<lambda>t. (t, TimerFired h)) ts) w) = intervals w
       \<and> filter (\<lambda>c. \<not> is_read c) (calls (run (map (\<lambda>t. (t, TimerFired h)) ts) w)) =
           filter (\<lambda>c. \<not> is_read c) (calls w)"
  using assms
proof (induction ts arbitrary: w)
  case Nil
  then show ?case by (simp add: run_Nil)
next
  case (Cons t ts)
  let ?w' = "fire_timer h t w"
  note f = timer_no_marker [OF Cons.prems, of h t]
  then have "\<not> truthy_str (storage ?w' ''user_id'')" using Cons.prems by simp
  from Cons.IH [OF this] f show ?case by (simp add: run_Cons)
qed

text \<open>
  C4. While \<^verbatim>\<open>user_id\<close> is absent from the storage (or empty), a check changes
  nothing on the page: it only reads the two entries. However often the timer fires,
  the storage, the listeners and the timers stay as they were, and no call other than
  these reads is made: no removal, no alert, no navigation.
\<close>

theorem check_without_session_inert:
  assumes "\<not> truthy_str (storage w ''user_id'')"
  shows "session_check tms now w =
           w\<lparr>calls := calls w @ [GetItem ''lastActivity'', GetItem ''user_id'']\<rparr>
       \<and> storage (run (map (\<lambda>t. (t, TimerFired h)) ts) w) = storage w
       \<and> listeners (run (map (\<lambda>t. (t, TimerFired h)) ts) w) = listeners w
       \<and> intervals (run (map (\<lambda>t. (t, TimerFired h)) ts) w) = intervals w
       \<and> filter (\<lambda>c. \<not> is_read c) (calls (run (map (\<lambda>t. (t, TimerFired h)) ts) w)) =
           filter (\<lambda>c. \<not> is_read c) (calls w)"
  using check_no_marker [OF assms] timers_no_marker [OF assms] by simp

text \<open>Scenario C: no marker was ever set; the timer fires three times.\<close>

theorem check_without_session_inert_witness:
  "\<not> truthy_str (storage (mounted None 0 [''token'' \<mapsto> ''abc'']) ''user_id'')
   \<and> storage (run (map (\<lambda>t. (t, TimerFired 1)) [30000, 60000, 6000000])
        (mounted None 0 [''token'' \<mapsto> ''abc''])) =
      storage (mounted None 0 [''token'' \<mapsto> ''abc''])
   \<and> filter (\<lambda>c. \<not> is_read c)
        (calls (run (map (\<lambda>t. (t, TimerFired 1)) [30000, 60000, 6000000])
          (mounted None 0 [''token'' \<mapsto> ''abc'']))) =
      filter (\<lambda>c. \<not> is_read c) (calls (mounted None 0 [''token'' \<mapsto> ''abc'']))"
proof -
  let ?w = "mounted None 0 [''token'' \<mapsto> ''abc'']"
  have h: "\<not> truthy_str (storage ?w ''user_id'')"
    by (simp add: mounted_eq truthy_str_def)
  from check_without_session_inert [OF h, of _ _ 1 "[30000, 60000, 6000000]"]
  have "storage (run (map (\<lambda>t. (t, TimerFired 1)) [30000, 60000, 6000000]) ?w) = storage ?w"
    and "filter (\<lambda>c. \<not> is_read c)
        (calls (run (map (\<lambda>t. (t, TimerFired 1)) [30000, 60000, 6000000]) ?w)) =
      filter (\<lambda>c. \<not> is_read c) (calls ?w)"
    by blast+
  with h show ?thesis by blast
qed

text \<open>The calls of Scenario C, in full, for two firings.\<close>

lemma scenario_C:
  "calls (run (map (\<lambda>t. (t, TimerFired 1)) [30000, 6000000])
        (mounted None 0 [''token'' \<mapsto> ''abc''])) =
     [AddEventListener ''mousemove'' 1, AddEventListener ''keydown'' 1, SetInterval 30000,
      SetItem ''lastActivity'' ''0'',
      GetItem ''lastActivity'', GetItem ''user_id'',
      GetItem ''lastActivity'', GetItem ''user_id'']"
  by (simp add: run_def mounted_eq fire_timer_def session_check_eq truthy_str_def
      toString_def digits.simps digit_char_def)

section \<open>What each operation touches\<close>

text \<open>
  C6. The handler of the activity events makes one call, \<^verbatim>\<open>setItem\<close> of
  \<^verbatim>\<open>lastActivity\<close> to the current time, and changes nothing else; a pointer move
  or a key press runs it once for each listener registered, which is once on a
  mounted monitor. Neither the handler, nor the activation, nor the clean-up removes
  an entry, alerts or navigates: these happen in the periodic check only.
\<close>

theorem activity_handler_writes_timestamp_only:
  "updateLastActivity now w =
     w\<lparr>storage := (storage w)(''lastActivity'' \<mapsto> toString now),
       calls := calls w @ [SetItem ''lastActivity'' (toString now)]\<rparr>
   \<and> stored_time (updateLastActivity now w) = Some now
   \<and> step w (now, MouseMove) =
       (if registered ''mousemove'' w = 0 then w
        else w\<lparr>storage := (storage w)(''lastActivity'' \<mapsto> toString now),
               calls := calls w @ replicate (registered ''mousemove'' w)
                          (SetItem ''lastActivity'' (toString now))\<rparr>)
   \<and> step w (now, KeyDown) =
       (if registered ''keydown'' w = 0 then w
        else w\<lparr>storage := (storage w)(''lastActivity'' \<mapsto> toString now),
               calls := calls w @ replicate (registered ''keydown'' w)
                          (SetItem ''lastActivity'' (toString now))\<rparr>)
   \<and> step (run pre (mounted tm t0 s)) (now, MouseMove) =
       updateLastActivity now (run pre (mounted tm t0 s))
   \<and> step (run pre (mounted tm t0 s)) (now, KeyDown) =
       updateLastActivity now (run pre (mounted tm t0 s))
   \<and> filter is_expiry_call (calls (snd (useSessionTimeout tm now w))) =
       filter is_expiry_call (calls w)
   \<and> filter is_expiry_call (calls (cleanup c w)) = filter is_expiry_call (calls w)"
proof -
  let ?m = "run pre (mounted tm t0 s)"
  have l: "listeners ?m = [(''mousemove'', 1), (''keydown'', 1)]"
    by (simp add: run_frame mounted_eq)
  have a: "step ?m (now, MouseMove) = updateLastActivity now ?m"
    using step_activity [OF _ l, of MouseMove now] by (simp add: updateLastActivity_eq)
  have b: "step ?m (now, KeyDown) = updateLastActivity now ?m"
    using step_activity [OF _ l, of KeyDown now] by (simp add: updateLastActivity_eq)
  have st: "stored_time (updateLastActivity now w) = Some now"
    by (simp add: updateLastActivity_eq stored_time_def ToString_def parseInt10_toString)
  have e: "filter is_expiry_call (calls (snd (useSessionTimeout tm now w))) =
       filter is_expiry_call (calls w)"
    by (simp add: useSessionTimeout_def effect_eq)
  have cl: "filter is_expiry_call (calls (cleanup c w)) = filter is_expiry_call (calls w)"
    by (cases c) (simp add: cleanup_eq)
  show ?thesis
    by (intro conjI updateLastActivity_eq st a b e cl) (simp_all add: fire_event_eq)
qed

lemma step_token:
  "storage (step w ev) ''token'' = storage w ''token''
   \<and> filter (touches ''token'') (calls (step w ev)) = filter (touches ''token'') (calls w)"
proof (cases ev)
  case (Pair t e)
  show ?thesis
  proof (cases e)
    case MouseMove
    with Pair show ?thesis by (simp add: fire_event_eq)
  next
    case KeyDown
    with Pair show ?thesis by (simp add: fire_event_eq)
  next
    case (TimerFired h)
    have "storage (session_check T t w) ''token'' = storage w ''token''
      \<and> filter (touches ''token'') (calls (session_check T t w)) =
        filter (touches ''token'') (calls w)" for T
      by (simp add: session_check_eq)
    then show ?thesis
      using fire_timer_cases [of h t w] Pair TimerFired by auto
  qed
qed

lemma run_token:
  "storage (run evs w) ''token'' = storage w ''token''
   \<and> filter (touches ''token'') (calls (run evs w)) = filter (touches ''token'') (calls w)"
  by (induction evs arbitrary: w) (simp_all add: run_Nil run_Cons step_token)

lemma effect_token:
  "storage (snd (useSessionTimeout tm t0 w)) ''token'' = storage w ''token''
   \<and> filter (touches ''token'') (calls (snd (useSessionTimeout tm t0 w))) =
       filter (touches ''token'') (calls w)"
  by (simp add: useSessionTimeout_def effect_eq)

lemma cleanup_token:
  "storage (cleanup c w) ''token'' = storage w ''token''
   \<and> filter (touches ''token'') (calls (cleanup c w)) = filter (touches ''token'') (calls w)"
  by (cases c) (simp add: cleanup_eq)

text \<open>
  C5. A check that alerts has removed exactly \<^verbatim>\<open>user_id\<close> and \<^verbatim>\<open>lastActivity\<close>
  and left every other entry as it was; a check that does not alert leaves the whole
  storage as it was. Over the whole life of a monitor (activation, any events, the
  clean-up) the entry \<^verbatim>\<open>token\<close> keeps its value and no call reads, writes or
  removes it.
\<close>

theorem expiry_removes_two_entries_token_untouched:
  "storage (session_check tms now w) =
     (if Alert ''Session expired. Please log in again.''
           \<in> set (drop (length (calls w)) (calls (session_check tms now w)))
      then (storage w)(''user_id'' := None, ''lastActivity'' := None)
      else storage w)
   \<and> storage (cleanup c (run evs (snd (useSessionTimeout tm t0 w)))) ''token'' =
       storage w ''token''
   \<and> filter (touches ''token'') (calls (cleanup c (run evs (snd (useSessionTimeout tm t0 w))))) =
       filter (touches ''token'') (calls w)"
proof -
  have "storage (session_check tms now w) =
     (if Alert ''Session expired. Please log in again.''
           \<in> set (drop (length (calls w)) (calls (session_check tms now w)))
      then (storage w)(''user_id'' := None, ''lastActivity'' := None)
      else storage w)"
    by (simp add: session_check_eq)
  then show ?thesis
    by (simp add: cleanup_token run_token effect_token)
qed

section \<open>Activation and deactivation\<close>

text \<open>
  C8 (as amended). On activation the hook makes four calls, in this order: it
  subscribes the listener of \<^verbatim>\<open>mousemove\<close> and that of \<^verbatim>\<open>keydown\<close>, starts
  the interval with the period 30000 ms whatever \<^verbatim>\<open>timeoutMinutes\<close> is, and then
  records the current time as \<^verbatim>\<open>lastActivity\<close>.
\<close>

theorem activation_calls_in_order:
  "calls (snd (useSessionTimeout tm now w)) =
     calls w @ [AddEventListener ''mousemove'' (next_function w),
                AddEventListener ''keydown'' (next_function w),
                SetInterval 30000,
                SetItem ''lastActivity'' (toString now)]
   \<and> intervals (snd (useSessionTimeout tm now w)) =
     intervals w @ [(next_handle w, timeoutMs (case tm of None \<Rightarrow> 10 | Some m \<Rightarrow> m), 30000)]
   \<and> listeners (mounted tm now s) = [(''mousemove'', 1), (''keydown'', 1)]
   \<and> stored_time (snd (useSessionTimeout tm now w)) = Some now"
  by (simp add: useSessionTimeout_def effect_eq mounted_eq stored_time_def ToString_def
      parseInt10_toString)

text \<open>The order first claimed, with the timestamp written before the listeners are
  subscribed, is not the order of the calls.\<close>

theorem activation_order_counterexample:
  "calls (snd (useSessionTimeout (Some 10) 5 (boot Map.empty))) \<noteq>
     [SetItem ''lastActivity'' ''5'', AddEventListener ''mousemove'' 1,
      AddEventListener ''keydown'' 1, SetInterval 30000]
   \<and> calls (snd (useSessionTimeout (Some 10) 5 (boot Map.empty))) =
     [AddEventListener ''mousemove'' 1, AddEventListener ''keydown'' 1,
      SetInterval 30000, SetItem ''lastActivity'' ''5'']"
  by (simp add: useSessionTimeout_def effect_eq boot_def toString_def digits.simps
      digit_char_def)

text \<open>An activation on a page where nothing is registered: what the clean-up captures
  and what is registered afterwards.\<close>

lemma activation_on_idle_page:
  assumes "listeners w = []" and "intervals w = []"
  shows "fst (useSessionTimeout tm t0 w) = (next_handle w, next_function w)"
    and "listeners (snd (useSessionTimeout tm t0 w)) =
           [(''mousemove'', next_function w), (''keydown'', next_function w)]"
    and "intervals (snd (useSessionTimeout tm t0 w)) =
           [(next_handle w, timeoutMs (case tm of None \<Rightarrow> 10 | Some m \<Rightarrow> m), 30000)]"
  using assms by (simp_all add: useSessionTimeout_def effect_eq Let_def)

text \<open>On a page where other listeners and timers are registered, none of them under
  the closure and the handle the activation is about to receive, the clean-up restores
  exactly the registrations found at activation.\<close>

lemma cleanup_restores_registrations:
  assumes "\<forall>l \<in> set (listeners w). snd l \<noteq> next_function w"
    and "\<forall>i \<in> set (intervals w). fst i \<noteq> next_handle w"
  shows "listeners (cleanup (fst (useSessionTimeout tm t0 w))
                     (run evs (snd (useSessionTimeout tm t0 w)))) = listeners w
       \<and> intervals (cleanup (fst (useSessionTimeout tm t0 w))
                     (run evs (snd (useSessionTimeout tm t0 w)))) = intervals w"
proof -
  let ?f = "next_function w" and ?h = "next_handle w"
  have a: "(''mousemove'', ?f) \<notin> set (listeners w)" "(''keydown'', ?f) \<notin> set (listeners w)"
    using assms(1) by auto
  have r: "removeAll (''keydown'', ?f) (removeAll (''mousemove'', ?f) (listeners w)) = listeners w"
    using a by simp
  have fi: "filter (\<lambda>i. fst i \<noteq> ?h) (intervals w) = intervals w"
    using assms(2) by (simp add: filter_id_conv)
  show ?thesis
    using a r fi
    by (simp add: useSessionTimeout_def effect_eq cleanup_eq run_frame Let_def)
qed

text \<open>
  C9. Take any page on which no listener and no interval is registered, whatever its
  storage and however many activations it has seen before (the first mount, a mount
  after a configuration change, a later visit). After an activation and any events,
  the clean-up clears the interval whose handle the activation received and removes
  the two listeners under the closure it registered, in this order. Nothing stays
  registered, so whatever fires afterwards, the timer with the cleared handle
  included, runs none of the monitor's code: the page, its storage and the calls
  made stay as the clean-up left them.
\<close>

theorem unmount_stops_monitor:
  assumes "listeners w = []" and "intervals w = []"
  shows "listeners (cleanup (fst (useSessionTimeout tm t0 w))
                     (run evs (snd (useSessionTimeout tm t0 w)))) = []
   \<and> intervals (cleanup (fst (useSessionTimeout tm t0 w))
                     (run evs (snd (useSessionTimeout tm t0 w)))) = []
   \<and> calls (cleanup (fst (useSessionTimeout tm t0 w))
                     (run evs (snd (useSessionTimeout tm t0 w)))) =
       calls (run evs (snd (useSessionTimeout tm t0 w))) @
       [ClearInterval (next_handle w),
        RemoveEventListener ''mousemove'' (next_function w),
        RemoveEventListener ''keydown'' (next_function w)]
   \<and> run evs' (cleanup (fst (useSessionTimeout tm t0 w))
                     (run evs (snd (useSessionTimeout tm t0 w)))) =
       cleanup (fst (useSessionTimeout tm t0 w)) (run evs (snd (useSessionTimeout tm t0 w)))"
proof -
  let ?m = "useSessionTimeout tm t0 w"
  let ?w = "run evs (snd ?m)"
  let ?u = "cleanup (fst ?m) ?w"
  note act = activation_on_idle_page [OF assms, of tm t0]
  have l: "listeners ?w = [(''mousemove'', next_function w), (''keydown'', next_function w)]"
    and i: "intervals ?w =
      [(next_handle w, timeoutMs (case tm of None \<Rightarrow> 10 | Some m \<Rightarrow> m), 30000)]"
    by (simp_all add: run_frame act)
  have u: "?u = cleanup (next_handle w, next_function w) ?w" by (simp add: act(1))
  have ul: "listeners ?u = []" unfolding u by (simp add: cleanup_eq l)
  have ui: "intervals ?u = []" unfolding u by (simp add: cleanup_eq i)
  have uc: "calls ?u = calls ?w @ [ClearInterval (next_handle w),
      RemoveEventListener ''mousemove'' (next_function w),
      RemoveEventListener ''keydown'' (next_function w)]"
    unfolding u by (simp add: cleanup_eq)
  from ul ui uc run_idle [OF ul ui] show ?thesis by simp
qed

text \<open>
  A configuration change: the monitor mounted with 10 minutes is cleaned up (its
  clean-up has captured handle 1 and closure 1) and the effect runs again with 2
  minutes, receiving handle 2 and closure 2. The second clean-up leaves nothing
  registered, and later firings of either timer and a key press change nothing.
\<close>

theorem unmount_stops_monitor_witness:
  "listeners (cleanup (1, 1) (mounted (Some 10) 1000 [''user_id'' \<mapsto> ''42''])) = []
   \<and> intervals (cleanup (1, 1) (mounted (Some 10) 1000 [''user_id'' \<mapsto> ''42''])) = []
   \<and> fst (useSessionTimeout (Some 2) 2000
        (cleanup (1, 1) (mounted (Some 10) 1000 [''user_id'' \<mapsto> ''42'']))) = (2, 2)
   \<and> listeners (snd (useSessionTimeout (Some 2) 2000
        (cleanup (1, 1) (mounted (Some 10) 1000 [''user_id'' \<mapsto> ''42''])))) =
      [(''mousemove'', 2), (''keydown'', 2)]
   \<and> intervals (snd (useSessionTimeout (Some 2) 2000
        (cleanup (1, 1) (mounted (Some 10) 1000 [''user_id'' \<mapsto> ''42''])))) =
      [(2, 120000, 30000)]
   \<and> listeners (cleanup (fst (useSessionTimeout (Some 2) 2000
          (cleanup (1, 1) (mounted (Some 10) 1000 [''user_id'' \<mapsto> ''42'']))))
        (run [(3000, MouseMove)] (snd (useSessionTimeout (Some 2) 2000
          (cleanup (1, 1) (mounted (Some 10) 1000 [''user_id'' \<mapsto> ''42'']))))))  = []
   \<and> intervals (cleanup (fst (useSessionTimeout (Some 2) 2000
          (cleanup (1, 1) (mounted (Some 10) 1000 [''user_id'' \<mapsto> ''42'']))))
        (run [(3000, MouseMove)] (snd (useSessionTimeout (Some 2) 2000
          (cleanup (1, 1) (mounted (Some 10) 1000 [''user_id'' \<mapsto> ''42'']))))))  = []
   \<and> run [(900000, TimerFired 2), (900001, KeyDown), (900002, TimerFired 1)]
        (cleanup (fst (useSessionTimeout (Some 2) 2000
          (cleanup (1, 1) (mounted (Some 10) 1000 [''user_id'' \<mapsto> ''42'']))))
        (run [(3000, MouseMove)] (snd (useSessionTimeout (Some 2) 2000
          (cleanup (1, 1) (mounted (Some 10) 1000 [''user_id'' \<mapsto> ''42''])))))) =
      cleanup (fst (useSessionTimeout (Some 2) 2000
          (cleanup (1, 1) (mounted (Some 10) 1000 [''user_id'' \<mapsto> ''42'']))))
        (run [(3000, MouseMove)] (snd (useSessionTimeout (Some 2) 2000
          (cleanup (1, 1) (mounted (Some 10) 1000 [''user_id'' \<mapsto> ''42''])))))"
proof -
  let ?p = "cleanup (1, 1) (mounted (Some 10) 1000 [''user_id'' \<mapsto> ''42''])"
  have h1: "listeners ?p = []" by (simp add: cleanup_eq mounted_eq)
  have h2: "intervals ?p = []" by (simp add: cleanup_eq mounted_eq)
  have n: "next_handle ?p = 2" "next_function ?p = 2"
    by (simp_all add: cleanup_eq mounted_eq)
  have a: "fst (useSessionTimeout (Some 2) 2000 ?p) = (2, 2)"
    using activation_on_idle_page(1) [OF h1 h2, of "Some 2" 2000] n by simp
  have b: "listeners (snd (useSessionTimeout (Some 2) 2000 ?p)) =
      [(''mousemove'', 2), (''keydown'', 2)]"
    using activation_on_idle_page(2) [OF h1 h2, of "Some 2" 2000] n by simp
  have c: "intervals (snd (useSessionTimeout (Some 2) 2000 ?p)) = [(2, 120000, 30000)]"
    using activation_on_idle_page(3) [OF h1 h2, of "Some 2" 2000] n
    by (simp add: timeoutMs_def)
  note t = unmount_stops_monitor [OF h1 h2, of "Some 2" 2000 "[(3000, MouseMove)]"
      "[(900000, TimerFired 2), (900001, KeyDown), (900002, TimerFired 1)]"]
  from t have d: "listeners (cleanup (fst (useSessionTimeout (Some 2) 2000 ?p))
        (run [(3000, MouseMove)] (snd (useSessionTimeout (Some 2) 2000 ?p)))) = []"
    by blast
  from t have e: "intervals (cleanup (fst (useSessionTimeout (Some 2) 2000 ?p))
        (run [(3000, MouseMove)] (snd (useSessionTimeout (Some 2) 2000 ?p)))) = []"
    by blast
  from t have f: "run [(900000, TimerFired 2), (900001, KeyDown), (900002, TimerFired 1)]
        (cleanup (fst (useSessionTimeout (Some 2) 2000 ?p))
        (run [(3000, MouseMove)] (snd (useSessionTimeout (Some 2) 2000 ?p)))) =
      cleanup (fst (useSessionTimeout (Some 2) 2000 ?p))
        (run [(3000, MouseMove)] (snd (useSessionTimeout (Some 2) 2000 ?p)))"
    by blast
  show ?thesis by (intro conjI h1 h2 a b c d e f)
qed

end
